theory Spec2Isabelle
  imports Main "HOL-Library.Word" "HOL-Library.Sublist"
begin

unbundle bit_operations_syntax

section \<open>The SCA protocol engine (Sca.cxx)\<close>

subsection \<open>Registers and constants\<close>

type_synonym uint32_t = "32 word"

text \<open>Namespace \<open>Registers\<close>: word indices, byte address divided by 4.\<close>

definition WRITE_DATA :: int where "WRITE_DATA = 0x1e0 div 4"
definition WRITE_COMMAND :: int where "WRITE_COMMAND = 0x1e4 div 4"
definition CONTROL :: int where "CONTROL = 0x1e8 div 4"
definition BUSY :: int where "BUSY = 0x1ec div 4"
definition READ_DATA :: int where "READ_DATA = 0x1f0 div 4"
definition READ_COMMAND :: int where "READ_COMMAND = 0x1f4 div 4"
definition TIME :: int where "TIME = 0x1fc div 4"

text \<open>Namespace \<open>Offset\<close>.\<close>

definition Offset_CRORC :: int where "Offset_CRORC = 0"
definition Offset_CRU :: int where "Offset_CRU = 0"
definition Offset_OTHER :: int where "Offset_OTHER = 0"

definition MAX_BUSY_ITERATIONS :: int where "MAX_BUSY_ITERATIONS = 10000"

datatype CardType = Unknown | Crorc | Cru

subsection \<open>The register window\<close>

text \<open>
  \<open>RegisterReadWriteInterface\<close> is declared in a header that is not part of this
  development; the engine only calls \<open>readRegister\<close> and \<open>writeRegister\<close> on it. It is
  taken as a parameter: a device with state \<open>'d\<close>, where a read returns a word and may
  change the device (registers are volatile), and a write changes the device.
\<close>

record 'd RegisterReadWriteInterface =
  readRegister :: "int \<Rightarrow> 'd \<Rightarrow> uint32_t \<times> 'd"
  writeRegister :: "int \<Rightarrow> uint32_t \<Rightarrow> 'd \<Rightarrow> 'd"

record 'd Sca =
  bar2 :: "'d RegisterReadWriteInterface"
  offset :: int

text \<open>The constructor \<open>Sca::Sca(bar2, cardType)\<close>.\<close>

definition Sca_new :: "'d RegisterReadWriteInterface \<Rightarrow> CardType \<Rightarrow> 'd Sca" where
  "Sca_new bar cardType =
     \<lparr>bar2 = bar,
      offset = (if cardType = Crorc then Offset_CRORC
                else if cardType = Cru then Offset_CRU else Offset_OTHER)\<rparr>"

subsection \<open>Exceptions and sequencing\<close>

text \<open>\<open>ScaException\<close> with its \<open>ErrorInfo::Message\<close>.\<close>

datatype ScaException = ScaException string

text \<open>The message thrown by \<open>waitOnBusyClear\<close>: the timeout error.\<close>

definition TimeoutError :: ScaException where
  "TimeoutError = ScaException ''Exceeded timeout on busy wait''"

text \<open>
  A member function is a function from the device state to a result (\<open>Inl\<close> the thrown
  exception) and the device state it leaves. \<open>andThen\<close> is the semicolon: a thrown
  exception skips the rest.
\<close>

type_synonym ('a, 'd) action = "'d \<Rightarrow> (ScaException + 'a) \<times> 'd"

definition andThen :: "('a, 'd) action \<Rightarrow> ('a \<Rightarrow> ('b, 'd) action) \<Rightarrow> ('b, 'd) action" where
  "andThen m f s = (case m s of (Inl e, s') \<Rightarrow> (Inl e, s') | (Inr x, s') \<Rightarrow> f x s')"

definition returnValue :: "'a \<Rightarrow> ('a, 'd) action" where
  "returnValue x s = (Inr x, s)"

definition throwException :: "ScaException \<Rightarrow> ('a, 'd) action" where
  "throwException e s = (Inl e, s)"

subsection \<open>Register access\<close>

definition barWrite :: "'d Sca \<Rightarrow> int \<Rightarrow> uint32_t \<Rightarrow> (unit, 'd) action" where
  "barWrite sca index data s = (Inr (), writeRegister (bar2 sca) (index + offset sca) data s)"

definition barRead :: "'d Sca \<Rightarrow> int \<Rightarrow> (uint32_t, 'd) action" where
  "barRead sca index s =
     (case readRegister (bar2 sca) (index + offset sca) s of (v, s') \<Rightarrow> (Inr v, s'))"

subsection \<open>The busy-wait\<close>

text \<open>The \<open>for\<close> loop of \<open>waitOnBusyClear\<close>, from the value \<open>i\<close> of its counter.\<close>

function waitOnBusyClear_loop :: "'d Sca \<Rightarrow> int \<Rightarrow> (unit, 'd) action" where
  "waitOnBusyClear_loop sca i s =
     (if i < MAX_BUSY_ITERATIONS then
        (case barRead sca BUSY s of
           (Inl e, s') \<Rightarrow> (Inl e, s')
         | (Inr v, s') \<Rightarrow>
             if v = 0 then (Inr (), s') else waitOnBusyClear_loop sca (i + 1) s')
      else throwException TimeoutError s)"
  by pat_completeness auto
termination
  by (relation "measure (\<lambda>(sca, i, s). nat (MAX_BUSY_ITERATIONS - i))") auto

definition waitOnBusyClear :: "'d Sca \<Rightarrow> (unit, 'd) action" where
  "waitOnBusyClear sca = waitOnBusyClear_loop sca 0"

definition executeCommand :: "'d Sca \<Rightarrow> (unit, 'd) action" where
  "executeCommand sca =
     andThen (barWrite sca CONTROL 0x4) (\<lambda>_.
     andThen (barWrite sca CONTROL 0x0) (\<lambda>_.
     waitOnBusyClear sca))"

definition init :: "'d Sca \<Rightarrow> (unit, 'd) action" where
  "init sca =
     andThen (barWrite sca CONTROL 0x1) (\<lambda>_.
     andThen (waitOnBusyClear sca) (\<lambda>_.
     andThen (barWrite sca CONTROL 0x2) (\<lambda>_.
     andThen (waitOnBusyClear sca) (\<lambda>_.
     andThen (barWrite sca CONTROL 0x1) (\<lambda>_.
     andThen (waitOnBusyClear sca) (\<lambda>_.
     barWrite sca CONTROL 0x0))))))"

text \<open>\<open>Sca::write\<close> (\<open>write\<close> alone is a reserved word here).\<close>

definition Sca_write :: "'d Sca \<Rightarrow> uint32_t \<Rightarrow> uint32_t \<Rightarrow> (unit, 'd) action" where
  "Sca_write sca command data =
     andThen (barWrite sca WRITE_DATA data) (\<lambda>_.
     andThen (barWrite sca WRITE_COMMAND command) (\<lambda>_.
     executeCommand sca))"

subsection \<open>Observing the register traffic\<close>

text \<open>
  To speak about the order and number of register accesses, a device is wrapped into one
  that also keeps the list of accesses made so far, each read with the value it returned.
  The wrapped device answers exactly as the device inside does.
\<close>

datatype access = RegRead int uint32_t | RegWrite int uint32_t

definition logged :: "'d RegisterReadWriteInterface \<Rightarrow> (access list \<times> 'd) RegisterReadWriteInterface" where
  "logged bar =
     \<lparr>readRegister = (\<lambda>index (tr, s).
        case readRegister bar index s of (v, s') \<Rightarrow> (v, (tr @ [RegRead index v], s'))),
      writeRegister = (\<lambda>index data (tr, s).
        (tr @ [RegWrite index data], writeRegister bar index data s))\<rparr>"

text \<open>Devices for the examples: every register reads as \<open>f index\<close>, writes are ignored.\<close>

definition fixedBar :: "(int \<Rightarrow> uint32_t) \<Rightarrow> unit RegisterReadWriteInterface" where
  "fixedBar f = \<lparr>readRegister = (\<lambda>index s. (f index, s)), writeRegister = (\<lambda>index v s. s)\<rparr>"

text \<open>A device whose BUSY register never clears, and one that is never busy.\<close>

definition stuckBar :: "unit RegisterReadWriteInterface" where
  "stuckBar = fixedBar (\<lambda>index. 1)"

definition idleBar :: "unit RegisterReadWriteInterface" where
  "idleBar = fixedBar (\<lambda>index. 0)"

subsection \<open>Decoding the response\<close>

definition isChannelBusy :: "uint32_t \<Rightarrow> bool" where
  "isChannelBusy command \<longleftrightarrow> (command AND 0xff) = 0x40"

text \<open>
  Modelled from the spec: \<open>Utilities::getBit\<close> (Utilities/Util.h) is missing. The low
  byte is "an error-flag bitfield (bits 0-6, each independently settable)":
  \<open>getBit x index\<close> is bit \<open>index\<close> of \<open>x\<close>, as 0 or 1.
\<close>

definition getBit :: "uint32_t \<Rightarrow> int \<Rightarrow> uint32_t" where
  "getBit x index = drop_bit (nat index) x AND 1"

text \<open>The lambda \<open>toString\<close> of \<open>checkError\<close>: a \<open>switch\<close> on the flag number.\<close>

definition toString :: "int \<Rightarrow> string" where
  "toString flag =
     (if flag = 1 then ''invalid channel request''
      else if flag = 2 then ''invalid command request''
      else if flag = 3 then ''invalid transaction number''
      else if flag = 4 then ''invalid length''
      else if flag = 5 then ''channel not enabled''
      else if flag = 6 then ''channel busy''
      else if flag = 7 then ''channel busy''
      else ''generic error flag'')"

text \<open>
  \<open>stream << errorCode\<close> for an unsigned integer: the stream is in its default state (no
  \<open>std::hex\<close>), so the number is printed in decimal.
\<close>

definition digitChar :: "nat \<Rightarrow> char" where
  "digitChar n = ''0123456789'' ! (n mod 10)"

function streamUnsigned :: "nat \<Rightarrow> string" where
  "streamUnsigned n =
     (if n < 10 then [digitChar n] else streamUnsigned (n div 10) @ [digitChar (n mod 10)])"
  by pat_completeness auto
termination
  by (relation "measure (\<lambda>n. n)") auto

text \<open>The loop "check which error bits are enabled", from the value \<open>flag\<close> of its counter.\<close>

function checkError_flags :: "uint32_t \<Rightarrow> int \<Rightarrow> int list \<Rightarrow> int list" where
  "checkError_flags errorCode flag flags =
     (if flag < 7 then
        checkError_flags errorCode (flag + 1)
          (if getBit errorCode flag = 1 then flags @ [flag] else flags)
      else flags)"
  by pat_completeness auto
termination
  by (relation "measure (\<lambda>(errorCode, flag, flags). nat (7 - flag))") auto

text \<open>The loop that writes the flag names to the stream, from the value \<open>i\<close> of its counter.\<close>

function checkError_stream :: "int list \<Rightarrow> int \<Rightarrow> string \<Rightarrow> string" where
  "checkError_stream flags i stream =
     (if i < int (length flags) then
        checkError_stream flags (i + 1)
          (let stream1 = stream @ toString (flags ! nat i)
           in if i < int (length flags) then stream1 @ '', '' else stream1)
      else stream)"
  by pat_completeness auto
termination
  by (relation "measure (\<lambda>(flags, i, stream). nat (int (length flags) - i))") auto

definition checkError :: "uint32_t \<Rightarrow> ScaException + unit" where
  "checkError command =
     (let errorCode = command AND 0xff;
          flags = checkError_flags errorCode 0 []
      in if flags \<noteq> [] then
           Inl (ScaException
             (checkError_stream flags 0
                (''error code 0x'' @ streamUnsigned (unat errorCode) @ '': '')))
         else Inr ())"

text \<open>
  The loop of \<open>read\<close> tests the same local \<open>command\<close> at every iteration and touches no
  register. It has no effect; the model returns the number of times it evaluated
  \<open>isChannelBusy\<close>, so that the bound on the polls can be stated.
\<close>

function read_loop :: "int \<Rightarrow> uint32_t \<Rightarrow> nat \<Rightarrow> nat" where
  "read_loop i command polls =
     (if i < MAX_BUSY_ITERATIONS then
        (if \<not> isChannelBusy command then polls + 1
         else read_loop (i + 1) command (polls + 1))
      else polls)"
  by pat_completeness auto
termination
  by (relation "measure (\<lambda>(i, command, polls). nat (MAX_BUSY_ITERATIONS - i))") auto

record ReadResult =
  command :: uint32_t
  data :: uint32_t

definition Sca_read :: "'d Sca \<Rightarrow> (ReadResult, 'd) action" where
  "Sca_read sca =
     andThen (barRead sca READ_DATA) (\<lambda>data.
     andThen (barRead sca READ_COMMAND) (\<lambda>command.
     andThen (returnValue (read_loop 0 command 0)) (\<lambda>_.
     (case checkError command of
        Inl e \<Rightarrow> throwException e
      | Inr _ \<Rightarrow> returnValue \<lparr>command = command, data = data\<rparr>))))"

subsection \<open>GPIO operations\<close>

definition gpioEnable :: "'d Sca \<Rightarrow> (unit, 'd) action" where
  "gpioEnable sca =
     andThen (Sca_write sca 0x00010002 0xff000000) (\<lambda>_.
     andThen (Sca_read sca) (\<lambda>_.
     andThen (Sca_write sca 0x00020003 0xff000000) (\<lambda>_.
     andThen (Sca_read sca) (\<lambda>_.
     andThen (Sca_write sca 0x02030020 0xffffffff) (\<lambda>_.
     andThen (Sca_write sca 0x02040021 0x0) (\<lambda>_.
     andThen (Sca_read sca) (\<lambda>_.
     returnValue ())))))))"

definition initialize :: "'d Sca \<Rightarrow> (unit, 'd) action" where
  "initialize sca = andThen (init sca) (\<lambda>_. gpioEnable sca)"

definition gpioWrite :: "'d Sca \<Rightarrow> uint32_t \<Rightarrow> (ReadResult, 'd) action" where
  "gpioWrite sca = (\<lambda>data.
     andThen (initialize sca) (\<lambda>_.
     andThen (Sca_write sca 0x02040010 data) (\<lambda>_.
     andThen (Sca_write sca 0x02050011 0x0) (\<lambda>_.
     andThen (Sca_read sca) (\<lambda>_.
     andThen (Sca_write sca 0x02060001 0x0) (\<lambda>_.
     Sca_read sca))))))"

definition gpioRead :: "'d Sca \<Rightarrow> (ReadResult, 'd) action" where
  "gpioRead sca =
     andThen (Sca_write sca 0x02050011 0x0) (\<lambda>_.
     Sca_read sca)"

subsection \<open>Shapes of register traffic\<close>

text \<open>The accesses of one \<open>write(command, data)\<close> before its busy-wait, and of one \<open>read()\<close>.\<close>

definition writeAccesses :: "uint32_t \<Rightarrow> uint32_t \<Rightarrow> access list" where
  "writeAccesses c d =
     [RegWrite WRITE_DATA d, RegWrite WRITE_COMMAND c, RegWrite CONTROL 0x4, RegWrite CONTROL 0x0]"

definition readAccesses :: "ReadResult \<Rightarrow> access list" where
  "readAccesses r = [RegRead READ_DATA (data r), RegRead READ_COMMAND (command r)]"

text \<open>
  A completed wait-not-busy: between 1 and 10,000 reads of BUSY and nothing else, the last
  one reading zero and none before it.
\<close>

definition isBusyPoll :: "access \<Rightarrow> bool" where
  "isBusyPoll a = (case a of RegRead index v \<Rightarrow> index = BUSY \<and> v \<noteq> 0 | RegWrite index v \<Rightarrow> False)"

definition waitNotBusy :: "access list \<Rightarrow> bool" where
  "waitNotBusy p \<longleftrightarrow>
     p \<noteq> [] \<and> length p \<le> 10000 \<and> last p = RegRead BUSY 0 \<and> list_all isBusyPoll (butlast p)"

text \<open>Counting the transactions in a trace: command writes and response reads.\<close>

definition commandWrites :: "access list \<Rightarrow> nat" where
  "commandWrites tr =
     length (filter (\<lambda>a. case a of RegWrite index v \<Rightarrow> index = WRITE_COMMAND | RegRead index v \<Rightarrow> False) tr)"

definition commandReads :: "access list \<Rightarrow> nat" where
  "commandReads tr =
     length (filter (\<lambda>a. case a of RegRead index v \<Rightarrow> index = READ_COMMAND | RegWrite index v \<Rightarrow> False) tr)"

text \<open>What \<open>initialize\<close> does on the device that is never busy and reads zero everywhere.\<close>

definition idleInitializeTrace :: "access list" where
  "idleInitializeTrace =
     [RegWrite CONTROL 0x1, RegRead BUSY 0, RegWrite CONTROL 0x2, RegRead BUSY 0,
      RegWrite CONTROL 0x1, RegRead BUSY 0, RegWrite CONTROL 0x0] @
     writeAccesses 0x00010002 0xff000000 @ [RegRead BUSY 0] @ [RegRead READ_DATA 0, RegRead READ_COMMAND 0] @
     writeAccesses 0x00020003 0xff000000 @ [RegRead BUSY 0] @ [RegRead READ_DATA 0, RegRead READ_COMMAND 0] @
     writeAccesses 0x02030020 0xffffffff @ [RegRead BUSY 0] @
     writeAccesses 0x02040021 0x0 @ [RegRead BUSY 0] @ [RegRead READ_DATA 0, RegRead READ_COMMAND 0]"

section \<open>Card identity and enumeration (RocPciDevice.cxx)\<close>

type_synonym uint8_t = "8 word"

text \<open>\<open>PciId\<close>: the pair of identity strings of the table, \<open>{"0033", "10dc"}\<close>.\<close>

type_synonym PciId = "string \<times> string"



text \<open>
  The raw PCI layer (PDA) is an external library and is taken as a parameter. A device
  handle is what the layer answers for it: the three address getters (\<open>None\<close> when the
  call returns a non-zero status), the NUMA node, and what each family's serial-reading
  procedure finds (an empty optional when there is no serial to report).
\<close>

record PdaPciDevice =
  PciDevice_getBusID :: "uint8_t option"
  PciDevice_getDeviceID :: "uint8_t option"
  PciDevice_getFunctionID :: "uint8_t option"
  PciDevice_getNumaNode :: int
  Crorc_getSerial :: "int option"
  CruBar_getSerial :: "int option"







record DeviceType =
  cardType :: CardType
  pciId :: PciId
  getSerial :: "PdaPciDevice \<Rightarrow> int option"
















subsection \<open>Vocabulary for the enumeration\<close>












section \<open>Generator register setters (CruBar)\<close>

text \<open>
  Modelled from the spec: the bodies of \<open>CruBar::setDataGeneratorPatternBits\<close>,
  \<open>setDataGeneratorSizeBits\<close>, \<open>setDataGeneratorEnableBits\<close> and
  \<open>setDataGeneratorRandomSizeBits\<close> (CruBar.cxx) are missing; CruBar.h declares them, each
  taking the register value \<open>bits\<close> by reference. The spec (4.3): such a setter "must only
  change the bits they own and must leave all other bits of the target register untouched",
  and it "receives the current register value by reference (or reads-modifies-writes) rather
  than overwriting the whole register". Neither the header nor the spec gives the bit
  positions or the encoding of a pattern or a size: the bits each setter owns are parameters
  (a mask per setter), and the pattern and the size are given by the field value they encode
  to. A setter clears the bits it owns in the current value and puts the field value there.
\<close>

record GeneratorRegisterLayout =
  patternBits :: uint32_t
  sizeBits :: uint32_t
  enableBits :: uint32_t
  randomSizeBits :: uint32_t

definition setOwnedBits :: "uint32_t \<Rightarrow> uint32_t \<Rightarrow> uint32_t \<Rightarrow> uint32_t" where
  "setOwnedBits owned fieldValue bits = (bits AND NOT owned) OR (fieldValue AND owned)"

definition setDataGeneratorPatternBits :: "GeneratorRegisterLayout \<Rightarrow> uint32_t \<Rightarrow> uint32_t \<Rightarrow> uint32_t" where
  "setDataGeneratorPatternBits layout bits pattern = setOwnedBits (patternBits layout) pattern bits"

definition setDataGeneratorSizeBits :: "GeneratorRegisterLayout \<Rightarrow> uint32_t \<Rightarrow> uint32_t \<Rightarrow> uint32_t" where
  "setDataGeneratorSizeBits layout bits sizeValue = setOwnedBits (sizeBits layout) sizeValue bits"

definition setDataGeneratorEnableBits :: "GeneratorRegisterLayout \<Rightarrow> uint32_t \<Rightarrow> bool \<Rightarrow> uint32_t" where
  "setDataGeneratorEnableBits layout bits enabled =
     setOwnedBits (enableBits layout) (if enabled then enableBits layout else 0) bits"

definition setDataGeneratorRandomSizeBits :: "GeneratorRegisterLayout \<Rightarrow> uint32_t \<Rightarrow> bool \<Rightarrow> uint32_t" where
  "setDataGeneratorRandomSizeBits layout bits enabled =
     setOwnedBits (randomSizeBits layout) (if enabled then randomSizeBits layout else 0) bits"

text \<open>The spec's \<open>decode_other_bits\<close>: the word without the bits a setter owns.\<close>

definition decode_other_bits :: "uint32_t \<Rightarrow> uint32_t \<Rightarrow> uint32_t" where
  "decode_other_bits owned bits = bits AND NOT owned"

section \<open>Properties of the SCA engine\<close>

text \<open>The loops are unfolded one step at a time, by hand.\<close>

declare waitOnBusyClear_loop.simps [simp del] checkError_flags.simps [simp del]
  checkError_stream.simps [simp del] read_loop.simps [simp del] streamUnsigned.simps [simp del]

subsection \<open>Register access on an observed device\<close>

lemma offset_Sca_new: "offset (Sca_new bar ct) = 0"
  by (simp add: Sca_new_def Offset_CRORC_def Offset_CRU_def Offset_OTHER_def)

lemma bar2_Sca_new: "bar2 (Sca_new bar ct) = bar"
  by (simp add: Sca_new_def)

lemma barRead_logged:
  "barRead (Sca_new (logged bar) ct) index (tr, s) =
     (Inr (fst (readRegister bar index s)),
      (tr @ [RegRead index (fst (readRegister bar index s))], snd (readRegister bar index s)))"
  by (simp add: barRead_def offset_Sca_new bar2_Sca_new logged_def split: prod.splits)

lemma barWrite_logged:
  "barWrite (Sca_new (logged bar) ct) index v (tr, s) =
     (Inr (), (tr @ [RegWrite index v], writeRegister bar index v s))"
  by (simp add: barWrite_def offset_Sca_new bar2_Sca_new logged_def)

subsection \<open>The busy-wait\<close>

lemma waitOnBusyClear_loop_logged:
  "0 \<le> i \<Longrightarrow> i \<le> MAX_BUSY_ITERATIONS \<Longrightarrow>
   \<exists>vs s'. snd (waitOnBusyClear_loop (Sca_new (logged bar) ct) i (tr, s)) =
              (tr @ map (RegRead BUSY) vs, s') \<and>
     ((fst (waitOnBusyClear_loop (Sca_new (logged bar) ct) i (tr, s)) = Inl TimeoutError
         \<and> int (length vs) = MAX_BUSY_ITERATIONS - i \<and> 0 \<notin> set vs) \<or>
      (fst (waitOnBusyClear_loop (Sca_new (logged bar) ct) i (tr, s)) = Inr ()
         \<and> vs \<noteq> [] \<and> int (length vs) \<le> MAX_BUSY_ITERATIONS - i \<and> last vs = 0
         \<and> 0 \<notin> set (butlast vs)))"
proof (induction "nat (MAX_BUSY_ITERATIONS - i)" arbitrary: i tr s)
  case 0
  then have "i = MAX_BUSY_ITERATIONS" by simp
  then show ?case
    by (subst (1 2 3) waitOnBusyClear_loop.simps) (simp add: throwException_def)
next
  case (Suc n)
  then have lt: "i < MAX_BUSY_ITERATIONS" by linarith
  obtain v s1 where rd: "readRegister bar BUSY s = (v, s1)" by (cases "readRegister bar BUSY s")
  let ?tr1 = "tr @ [RegRead BUSY v]"
  show ?case
  proof (cases "v = 0")
    case True
    have "waitOnBusyClear_loop (Sca_new (logged bar) ct) i (tr, s) = (Inr (), (?tr1, s1))"
      using lt rd True by (subst waitOnBusyClear_loop.simps) (simp add: barRead_logged)
    then show ?thesis
      using lt True by (intro exI[of _ "[0]"] exI[of _ s1]) simp
  next
    case False
    have step: "waitOnBusyClear_loop (Sca_new (logged bar) ct) i (tr, s) =
                waitOnBusyClear_loop (Sca_new (logged bar) ct) (i + 1) (?tr1, s1)"
      using lt rd False by (subst waitOnBusyClear_loop.simps) (simp add: barRead_logged)
    have "n = nat (MAX_BUSY_ITERATIONS - (i + 1))" using Suc.hyps(2) by linarith
    from Suc.hyps(1)[OF this, of ?tr1 s1] Suc.prems lt
    obtain vs s' where
      a: "snd (waitOnBusyClear_loop (Sca_new (logged bar) ct) (i + 1) (?tr1, s1)) =
            (?tr1 @ map (RegRead BUSY) vs, s')"
      and b: "(fst (waitOnBusyClear_loop (Sca_new (logged bar) ct) (i + 1) (?tr1, s1)) = Inl TimeoutError
         \<and> int (length vs) = MAX_BUSY_ITERATIONS - (i + 1) \<and> 0 \<notin> set vs) \<or>
      (fst (waitOnBusyClear_loop (Sca_new (logged bar) ct) (i + 1) (?tr1, s1)) = Inr ()
         \<and> vs \<noteq> [] \<and> int (length vs) \<le> MAX_BUSY_ITERATIONS - (i + 1) \<and> last vs = 0
         \<and> 0 \<notin> set (butlast vs))"
      by force
    show ?thesis
      unfolding step
      using a b False
      by (intro exI[of _ "v # vs"] exI[of _ s']) auto
  qed
qed

lemma stuck_loop_trace:
  "set (fst (snd (waitOnBusyClear_loop (Sca_new (logged stuckBar) ct) i (tr, s))))
     \<subseteq> set tr \<union> {RegRead BUSY 1}"
proof (induction "nat (MAX_BUSY_ITERATIONS - i)" arbitrary: i tr s)
  case 0
  then have "\<not> i < MAX_BUSY_ITERATIONS" by simp
  then show ?case
    by (subst waitOnBusyClear_loop.simps) (auto simp add: throwException_def)
next
  case (Suc n)
  then have lt: "i < MAX_BUSY_ITERATIONS" by linarith
  have step: "waitOnBusyClear_loop (Sca_new (logged stuckBar) ct) i (tr, s) =
              waitOnBusyClear_loop (Sca_new (logged stuckBar) ct) (i + 1) (tr @ [RegRead BUSY 1], ())"
    using lt by (subst waitOnBusyClear_loop.simps) (simp add: barRead_logged stuckBar_def fixedBar_def)
  have "n = nat (MAX_BUSY_ITERATIONS - (i + 1))" using Suc.hyps(2) by linarith
  from Suc.hyps(1)[OF this, of "tr @ [RegRead BUSY 1]" "()"] show ?case
    unfolding step by auto
qed

text \<open>
  Claim C1. Every run of the busy-wait reads BUSY and nothing else. Either all of exactly
  10,000 polls read a non-zero value and the wait throws the timeout error (after the
  10,000th poll, not before and not after), or some poll among the first 10,000 reads zero:
  then that poll is the last one and the wait returns normally. So a BUSY that never reads
  zero gives the timeout after exactly 10,000 polls, and a zero at any poll within the budget
  gives a normal return.
\<close>

theorem waitOnBusyClear_budget:
  "\<exists>vs s'. snd (waitOnBusyClear (Sca_new (logged bar) ct) (tr, s)) =
              (tr @ map (RegRead BUSY) vs, s') \<and>
     ((fst (waitOnBusyClear (Sca_new (logged bar) ct) (tr, s)) = Inl TimeoutError
         \<and> length vs = 10000 \<and> 0 \<notin> set vs) \<or>
      (fst (waitOnBusyClear (Sca_new (logged bar) ct) (tr, s)) = Inr ()
         \<and> vs \<noteq> [] \<and> length vs \<le> 10000 \<and> last vs = 0 \<and> 0 \<notin> set (butlast vs)))"
proof -
  have "(0::int) \<le> 0" and "0 \<le> MAX_BUSY_ITERATIONS"
    by (simp_all add: MAX_BUSY_ITERATIONS_def)
  from waitOnBusyClear_loop_logged[OF this, of bar ct tr s]
  show ?thesis
    unfolding waitOnBusyClear_def by (simp add: MAX_BUSY_ITERATIONS_def)
qed

text \<open>On the device whose BUSY never clears: the timeout, after 10,000 reads of BUSY.\<close>

theorem waitOnBusyClear_budget_witness:
  "fst (waitOnBusyClear (Sca_new (logged stuckBar) Cru) ([], ())) = Inl TimeoutError \<and>
   fst (snd (waitOnBusyClear (Sca_new (logged stuckBar) Cru) ([], ()))) =
     replicate 10000 (RegRead BUSY 1)"
proof -
  let ?run = "waitOnBusyClear (Sca_new (logged stuckBar) Cru) ([], ())"
  from waitOnBusyClear_budget[of stuckBar Cru "[]" "()"]
  obtain vs s' where tr: "snd ?run = (map (RegRead BUSY) vs, s')"
    and alt: "(fst ?run = Inl TimeoutError \<and> length vs = 10000 \<and> 0 \<notin> set vs) \<or>
      (fst ?run = Inr () \<and> vs \<noteq> [] \<and> length vs \<le> 10000 \<and> last vs = 0 \<and> 0 \<notin> set (butlast vs))"
    by auto
  have "set (fst (snd ?run)) \<subseteq> {RegRead BUSY 1}"
    using stuck_loop_trace[of Cru 0 "[]" "()"] by (simp add: waitOnBusyClear_def)
  then have ones: "set vs \<subseteq> {1}" using tr by auto
  have "\<not> (vs \<noteq> [] \<and> last vs = 0)"
  proof
    assume a: "vs \<noteq> [] \<and> last vs = 0"
    then have "vs \<noteq> []" by simp
    then have "last vs \<in> set vs" by (rule last_in_set)
    with ones have "last vs = 1" by blast
    with a show False by simp
  qed
  with alt have t: "fst ?run = Inl TimeoutError" and len: "length vs = 10000" by auto
  have "vs = replicate 10000 1"
    using ones len by (simp add: replicate_length_same subset_iff flip: len)
  then show ?thesis using t tr by simp
qed

subsection \<open>Decoding the error flags\<close>

lemma getBit_iff: "getBit x index = 1 \<longleftrightarrow> bit x (nat index)"
proof -
  have "drop_bit (nat index) x AND 1 = of_bool (bit x (nat index))"
    by (simp add: and_one_eq mod_2_eq_odd bit_iff_odd_drop_bit)
  then show ?thesis by (simp add: getBit_def)
qed

lemma bit_low_byte: "f \<in> set [0..6] \<Longrightarrow> bit (c AND 0xff) (nat f) = bit (c :: uint32_t) (nat f)"
proof -
  assume "f \<in> set [0..6]"
  then have "nat f < 8" by auto
  have m: "(0xff :: uint32_t) = mask 8" by (simp add: mask_eq_exp_minus_1)
  show ?thesis unfolding m using \<open>nat f < 8\<close> by (simp add: bit_and_iff bit_mask_iff)
qed

lemma checkError_flags_closed:
  "checkError_flags errorCode flag flags =
     flags @ filter (\<lambda>f. bit errorCode (nat f)) [flag..6]"
proof (induction "nat (7 - flag)" arbitrary: flag flags)
  case 0
  then have "\<not> flag < 7" by simp
  then show ?case
    by (subst checkError_flags.simps) simp
next
  case (Suc n)
  then have lt: "flag < 7" by linarith
  have n: "n = nat (7 - (flag + 1))" using Suc.hyps(2) by linarith
  have up: "[flag..6] = flag # [flag + 1..6]" using lt by (simp add: upto_rec1)
  show ?case
    using lt by (subst checkError_flags.simps) (simp add: Suc.hyps(1)[OF n] up getBit_iff)
qed

lemma checkError_stream_closed:
  "0 \<le> i \<Longrightarrow> checkError_stream flags i stream =
     stream @ concat (map (\<lambda>f. toString f @ '', '') (drop (nat i) flags))"
proof (induction "nat (int (length flags) - i)" arbitrary: i stream)
  case 0
  then have "\<not> i < int (length flags)" by simp
  then show ?case
    by (subst checkError_stream.simps) simp
next
  case (Suc n)
  then have lt: "i < int (length flags)" by linarith
  have n: "n = nat (int (length flags) - (i + 1))" using Suc.hyps(2) by linarith
  have i1: "0 \<le> i + 1" using Suc.prems by simp
  have dr: "drop (nat i) flags = flags ! nat i # drop (nat (i + 1)) flags"
    using lt Suc.prems by (simp add: Cons_nth_drop_Suc nat_add_distrib)
  show ?case
    using lt by (subst checkError_stream.simps) (simp add: Suc.hyps(1)[OF n i1] dr Let_def)
qed

lemma checkError_closed:
  "checkError c =
     (if filter (\<lambda>f. bit c (nat f)) [0..6] = [] then Inr ()
      else Inl (ScaException (''error code 0x'' @ streamUnsigned (unat (c AND 0xff)) @ '': '' @
             concat (map (\<lambda>f. toString f @ '', '') (filter (\<lambda>f. bit c (nat f)) [0..6])))))"
proof -
  have "filter (\<lambda>f. bit (c AND 0xff) (nat f)) [0..6] = filter (\<lambda>f. bit c (nat f)) [0..6]"
    by (rule filter_cong) (simp_all only: bit_low_byte)
  then show ?thesis
    by (simp add: checkError_def Let_def checkError_flags_closed checkError_stream_closed)
qed

lemma read_loop_closed:
  "read_loop i c polls =
     (if i < MAX_BUSY_ITERATIONS then
        (if isChannelBusy c then polls + nat (MAX_BUSY_ITERATIONS - i) else polls + 1)
      else polls)"
proof (induction "nat (MAX_BUSY_ITERATIONS - i)" arbitrary: i polls)
  case 0
  then have "\<not> i < MAX_BUSY_ITERATIONS" by simp
  then show ?case
    by (subst read_loop.simps) simp
next
  case (Suc n)
  then have lt: "i < MAX_BUSY_ITERATIONS" by linarith
  have n: "n = nat (MAX_BUSY_ITERATIONS - (i + 1))" using Suc.hyps(2) by linarith
  show ?case
    using lt by (subst read_loop.simps) (auto simp add: Suc.hyps(1)[OF n])
qed

lemma upto_0_6: "[0..6::int] = [0, 1, 2, 3, 4, 5, 6]"
  by (simp add: upto_rec1)

lemma streamUnsigned_64: "streamUnsigned 64 = ''64''"
  by (simp add: streamUnsigned.simps digitChar_def)

lemma bit_0x40: "bit (0x40 :: uint32_t) n \<longleftrightarrow> n = 6"
proof -
  have e: "(0x40 :: uint32_t) = 2 ^ 6" by simp
  have "bit (2 ^ 6 :: uint32_t) n \<longleftrightarrow> n = 6"
    by (subst bit_exp_iff) auto
  then show ?thesis by (simp only: e)
qed

lemma bit_and_0xff: "bit ((c :: uint32_t) AND 0xff) n \<longleftrightarrow> bit c n \<and> n < 8"
proof -
  have m: "(0xff :: uint32_t) = mask 8" by (simp add: mask_eq_exp_minus_1)
  show ?thesis unfolding m by (auto simp add: bit_and_iff bit_mask_iff)
qed

lemma isChannelBusy_bits:
  "isChannelBusy c \<longleftrightarrow> bit c 6 \<and> (\<forall>i<8. i \<noteq> 6 \<longrightarrow> \<not> bit c i)"
proof -
  have "isChannelBusy c \<longleftrightarrow> (\<forall>n. (bit c n \<and> n < 8) = (n = 6))"
  proof
    assume "isChannelBusy c"
    then have "c AND 0xff = 0x40" by (simp add: isChannelBusy_def)
    then have "\<And>n. bit (c AND 0xff) n = bit (0x40 :: uint32_t) n" by simp
    then show "\<forall>n. (bit c n \<and> n < 8) = (n = 6)" by (simp only: bit_and_0xff bit_0x40) simp
  next
    assume a: "\<forall>n. (bit c n \<and> n < 8) = (n = 6)"
    have "c AND 0xff = 0x40"
      by (rule bit_eqI) (simp only: bit_and_0xff bit_0x40 a)
    then show "isChannelBusy c" by (simp add: isChannelBusy_def)
  qed
  also have "\<dots> \<longleftrightarrow> bit c 6 \<and> (\<forall>i<8. i \<noteq> 6 \<longrightarrow> \<not> bit c i)"
    by auto
  finally show ?thesis .
qed

lemma flags_empty_iff:
  "filter (\<lambda>f. bit c (nat f)) [0..6] = [] \<longleftrightarrow> \<not> (\<exists>i<7. bit (c :: uint32_t) i)"
proof -
  have "(\<exists>f\<in>set [0..6]. bit c (nat f)) \<longleftrightarrow> (\<exists>i<7. bit c i)"
  proof
    assume "\<exists>f\<in>set [0..6]. bit c (nat f)"
    then obtain f where "0 \<le> f" "f \<le> 6" "bit c (nat f)" by auto
    then have "nat f < 7 \<and> bit c (nat f)" by auto
    then show "\<exists>i<7. bit c i" by blast
  next
    assume "\<exists>i<7. bit c i"
    then obtain i where "i < 7" "bit c i" by blast
    then have "int i \<in> set [0..6] \<and> bit c (nat (int i))" by auto
    then show "\<exists>f\<in>set [0..6]. bit c (nat f)" by blast
  qed
  then show ?thesis unfolding filter_empty_conv by blast
qed

lemma flags_0x12:
  assumes "c AND 0x7f = (0x12 :: uint32_t)"
  shows "filter (\<lambda>f. bit c (nat f)) [0..6] = [1, 4]"
proof -
  have m: "(0x7f :: uint32_t) = mask 7" by (simp add: mask_eq_exp_minus_1)
  have b: "\<And>n. n < 7 \<Longrightarrow> bit c n = bit (0x12 :: uint32_t) n"
  proof -
    fix n :: nat assume "n < 7"
    then have "bit (c AND 0x7f) n = bit c n" unfolding m by (simp add: bit_and_iff bit_mask_iff)
    then show "bit c n = bit (0x12 :: uint32_t) n" using assms by simp
  qed
  have "bit c 0 = bit (0x12 :: uint32_t) 0" "bit c 1 = bit (0x12 :: uint32_t) 1"
    "bit c 2 = bit (0x12 :: uint32_t) 2" "bit c 3 = bit (0x12 :: uint32_t) 3"
    "bit c 4 = bit (0x12 :: uint32_t) 4" "bit c 5 = bit (0x12 :: uint32_t) 5"
    "bit c 6 = bit (0x12 :: uint32_t) 6"
    by (simp_all only: b)
  then show ?thesis by (simp add: upto_0_6)
qed

lemma concat_sep_suffix:
  "flags \<noteq> [] \<Longrightarrow> suffix '', '' (pre @ concat (map (\<lambda>f. toString f @ '', '') flags))"
proof -
  assume "flags \<noteq> []"
  then obtain xs x where "flags = xs @ [x]" by (cases flags rule: rev_cases) auto
  then show ?thesis by (simp add: suffix_def)
qed

text \<open>
  Claim C3. \<open>checkError\<close> returns normally exactly when none of bits 0-6 of the command
  word is set, and throws otherwise. The message thrown is the header followed by the names
  of the set flags among 0-6 in ascending order of bit index. When exactly bits 1 and 4 of
  these are set, the names are "invalid channel request" and then "invalid length".
\<close>

theorem checkError_flags_message:
  "(checkError c = Inr () \<longleftrightarrow> \<not> (\<exists>i<7. bit c i)) \<and>
   (\<forall>m. checkError c = Inl (ScaException m) \<longrightarrow>
      m = ''error code 0x'' @ streamUnsigned (unat (c AND 0xff)) @ '': '' @
          concat (map (\<lambda>f. toString f @ '', '') (filter (\<lambda>f. bit c (nat f)) [0..6]))) \<and>
   (c AND 0x7f = 0x12 \<longrightarrow>
      checkError c = Inl (ScaException (''error code 0x'' @ streamUnsigned (unat (c AND 0xff)) @
         '': invalid channel request, invalid length, '')))"
proof (intro conjI allI impI)
  show "checkError c = Inr () \<longleftrightarrow> \<not> (\<exists>i<7. bit c i)"
    by (simp add: checkError_closed flags_empty_iff del: not_ex)
next
  fix m assume "checkError c = Inl (ScaException m)"
  then show "m = ''error code 0x'' @ streamUnsigned (unat (c AND 0xff)) @ '': '' @
          concat (map (\<lambda>f. toString f @ '', '') (filter (\<lambda>f. bit c (nat f)) [0..6]))"
    by (simp add: checkError_closed split: if_splits)
next
  assume "c AND 0x7f = 0x12"
  then have "filter (\<lambda>f. bit c (nat f)) [0..6] = [1, 4]" by (rule flags_0x12)
  then show "checkError c = Inl (ScaException (''error code 0x'' @ streamUnsigned (unat (c AND 0xff)) @
         '': invalid channel request, invalid length, ''))"
    by (simp add: checkError_closed toString_def)
qed

lemma streamUnsigned_18: "streamUnsigned 18 = ''18''"
  by (simp add: streamUnsigned.simps digitChar_def)

text \<open>The command word \<open>0x12\<close>: bits 1 and 4.\<close>

theorem checkError_flags_message_witness:
  "(\<exists>i<7. bit (0x12 :: uint32_t) i) \<and> (0x12 :: uint32_t) AND 0x7f = 0x12 \<and>
   checkError 0x12 =
     Inl (ScaException ''error code 0x18: invalid channel request, invalid length, '')"
proof -
  have a: "(0x12 :: uint32_t) AND 0x7f = 0x12" by simp
  have b: "unat ((0x12 :: uint32_t) AND 0xff) = 18" by simp
  have "checkError 0x12 \<noteq> Inr ()"
    using checkError_flags_message[of "0x12"] a by (simp add: streamUnsigned_18 b)
  then have "\<exists>i<7. bit (0x12 :: uint32_t) i"
    using checkError_flags_message[of "0x12"] by blast
  moreover have "checkError 0x12 =
     Inl (ScaException ''error code 0x18: invalid channel request, invalid length, '')"
    using checkError_flags_message[of "0x12"] a by (simp add: streamUnsigned_18 b)
  ultimately show ?thesis using a by blast
qed

text \<open>
  Claim C10. The loop that writes the names appends the separator after every name, the
  last one included (its inner guard repeats the loop's guard). So every message thrown by
  \<open>checkError\<close> ends with the separator; with exactly bits 1 and 4 set it ends with
  "invalid channel request, invalid length, ".
\<close>

theorem checkError_trailing_separator:
  "checkError_stream flags 0 stream = stream @ concat (map (\<lambda>f. toString f @ '', '') flags) \<and>
   (\<forall>m. checkError c = Inl (ScaException m) \<longrightarrow>
      suffix '', '' m \<and>
      (\<exists>fs. fs \<noteq> [] \<and>
         m = ''error code 0x'' @ streamUnsigned (unat (c AND 0xff)) @ '': '' @
             concat (map (\<lambda>f. toString f @ '', '') fs))) \<and>
   (c AND 0x7f = 0x12 \<longrightarrow>
      (\<exists>m. checkError c = Inl (ScaException m) \<and>
           suffix ''invalid channel request, invalid length, '' m))"
proof (intro conjI allI impI)
  show "checkError_stream flags 0 stream = stream @ concat (map (\<lambda>f. toString f @ '', '') flags)"
    by (simp add: checkError_stream_closed)
next
  fix m assume a: "checkError c = Inl (ScaException m)"
  let ?fs = "filter (\<lambda>f. bit c (nat f)) [0..6]"
  let ?pre = "''error code 0x'' @ streamUnsigned (unat (c AND 0xff)) @ '': ''"
  from a have ne: "?fs \<noteq> []" and m: "m = ?pre @ concat (map (\<lambda>f. toString f @ '', '') ?fs)"
    by (simp_all add: checkError_closed split: if_splits)
  show "suffix '', '' m" unfolding m using ne by (rule concat_sep_suffix)
  show "\<exists>fs. fs \<noteq> [] \<and>
         m = ''error code 0x'' @ streamUnsigned (unat (c AND 0xff)) @ '': '' @
             concat (map (\<lambda>f. toString f @ '', '') fs)"
    using ne m by (intro exI[of _ ?fs]) simp
next
  assume "c AND 0x7f = 0x12"
  then have fs: "filter (\<lambda>f. bit c (nat f)) [0..6] = [1, 4]" by (rule flags_0x12)
  have "checkError c = Inl (ScaException ((''error code 0x'' @ streamUnsigned (unat (c AND 0xff)) @
         '': '') @ ''invalid channel request, invalid length, ''))"
    by (simp add: checkError_closed fs toString_def)
  then show "\<exists>m. checkError c = Inl (ScaException m) \<and>
           suffix ''invalid channel request, invalid length, '' m"
    using suffixI by blast
qed

text \<open>The command word \<open>0x12\<close> again.\<close>

theorem checkError_trailing_separator_witness:
  "(0x12 :: uint32_t) AND 0x7f = 0x12 \<and>
   (\<exists>m. checkError 0x12 = Inl (ScaException m) \<and> suffix '', '' m \<and>
        suffix ''invalid channel request, invalid length, '' m)"
proof -
  have a: "(0x12 :: uint32_t) AND 0x7f = 0x12" by simp
  from checkError_trailing_separator[of "[]" "[]" "0x12"] a
  obtain m where m: "checkError 0x12 = Inl (ScaException m)"
    and s: "suffix ''invalid channel request, invalid length, '' m" by blast
  from checkError_trailing_separator[of "[]" "[]" "0x12"] m have "suffix '', '' m" by blast
  with a m s show ?thesis by blast
qed

subsection \<open>The response read\<close>

lemma checkError_not_timeout: "checkError c \<noteq> Inl TimeoutError"
  by (simp add: checkError_closed TimeoutError_def)

lemma Sca_read_logged:
  assumes "readRegister bar READ_DATA s = (d, s1)" and "readRegister bar READ_COMMAND s1 = (c, s2)"
  shows "Sca_read (Sca_new (logged bar) ct) (tr, s) =
     ((case checkError c of Inl e \<Rightarrow> Inl e | Inr u \<Rightarrow> Inr \<lparr>command = c, data = d\<rparr>),
      (tr @ [RegRead READ_DATA d, RegRead READ_COMMAND c], s2))"
  using assms
  by (simp add: Sca_read_def andThen_def barRead_logged returnValue_def throwException_def
      split: sum.splits)

text \<open>
  Claim C2. With \<open>d\<close> and \<open>c\<close> the words the device returns for READ_DATA and then
  READ_COMMAND: \<open>read\<close> makes exactly these two register reads, in this order; its loop
  polls the channel-busy condition of \<open>c\<close> at most 10,000 times (10,000 times when \<open>c\<close> is
  busy, so that the budget is exhausted; once otherwise); whatever the loop did, the result
  is the one of the error-flag check on \<open>c\<close>, and it is never the timeout error.
\<close>

theorem Sca_read_no_timeout:
  assumes "readRegister bar READ_DATA s = (d, s1)" and "readRegister bar READ_COMMAND s1 = (c, s2)"
  shows "Sca_read (Sca_new (logged bar) ct) (tr, s) =
     ((case checkError c of Inl e \<Rightarrow> Inl e | Inr u \<Rightarrow> Inr \<lparr>command = c, data = d\<rparr>),
      (tr @ [RegRead READ_DATA d, RegRead READ_COMMAND c], s2)) \<and>
    read_loop 0 c 0 \<le> 10000 \<and>
    (isChannelBusy c \<longrightarrow> read_loop 0 c 0 = 10000) \<and>
    (\<not> isChannelBusy c \<longrightarrow> read_loop 0 c 0 = 1) \<and>
    fst (Sca_read (Sca_new (logged bar) ct) (tr, s)) \<noteq> Inl TimeoutError"
proof (intro conjI)
  show r: "Sca_read (Sca_new (logged bar) ct) (tr, s) =
     ((case checkError c of Inl e \<Rightarrow> Inl e | Inr u \<Rightarrow> Inr \<lparr>command = c, data = d\<rparr>),
      (tr @ [RegRead READ_DATA d, RegRead READ_COMMAND c], s2))"
    using assms by (rule Sca_read_logged)
  show "read_loop 0 c 0 \<le> 10000" "isChannelBusy c \<longrightarrow> read_loop 0 c 0 = 10000"
    "\<not> isChannelBusy c \<longrightarrow> read_loop 0 c 0 = 1"
    by (simp_all add: read_loop_closed MAX_BUSY_ITERATIONS_def)
  show "fst (Sca_read (Sca_new (logged bar) ct) (tr, s)) \<noteq> Inl TimeoutError"
    unfolding r using checkError_not_timeout[of c] by (auto split: sum.splits)
qed

lemma checkError_0x40: "checkError 0x40 = Inl (ScaException ''error code 0x64: channel busy, '')"
proof -
  have u: "unat ((0x40 :: uint32_t) AND 0xff) = 64" by simp
  have f: "filter (\<lambda>f. bit (0x40 :: uint32_t) (nat f)) [0..6] = [6]"
    by (simp add: upto_0_6 bit_0x40)
  show ?thesis
    by (simp only: checkError_closed f) (simp add: u toString_def streamUnsigned_64)
qed

text \<open>
  A device answering the busy word \<open>0x40\<close>: the budget is exhausted, and what is thrown is
  the error of the flag check.
\<close>

theorem Sca_read_no_timeout_witness:
  "isChannelBusy 0x40 \<and> read_loop 0 0x40 0 = 10000 \<and>
   Sca_read (Sca_new (logged (fixedBar (\<lambda>index. 0x40))) Cru) ([], ()) =
     (Inl (ScaException ''error code 0x64: channel busy, ''),
      ([RegRead READ_DATA 0x40, RegRead READ_COMMAND 0x40], ()))"
proof -
  have a: "readRegister (fixedBar (\<lambda>index. 0x40)) READ_DATA () = (0x40, ())"
    and b: "readRegister (fixedBar (\<lambda>index. 0x40)) READ_COMMAND () = (0x40, ())"
    by (simp_all add: fixedBar_def)
  have busy: "isChannelBusy 0x40" by (simp add: isChannelBusy_def)
  from Sca_read_no_timeout[OF a b, of Cru "[]"] busy show ?thesis
    by (simp add: checkError_0x40)
qed

subsection \<open>The channel-busy test\<close>

text \<open>
  Claim C6 says a word is classified busy exactly when bit 6 of its low byte is set, whatever
  the other low-byte bits are. The test compares the whole low byte with \<open>0x40\<close>: the word
  \<open>0x41\<close> has bit 6 set and is not classified busy.
\<close>

theorem isChannelBusy_counterexample:
  "bit (0x41 :: uint32_t) 6 \<and> \<not> isChannelBusy 0x41"
  by (simp add: isChannelBusy_def)

text \<open>
  Claim C6, amended. A word is classified busy exactly when its low byte is \<open>0x40\<close>: bit 6
  is set and bits 0-5 and 7 are clear. Bits 8-31 play no part.
\<close>

theorem isChannelBusy_low_byte:
  "isChannelBusy c \<longleftrightarrow> bit c 6 \<and> (\<forall>i<8. i \<noteq> 6 \<longrightarrow> \<not> bit c i)"
  using isChannelBusy_bits[of c] by simp

text \<open>A busy word with channel and transaction bytes set.\<close>

theorem isChannelBusy_low_byte_witness:
  "isChannelBusy 0xab120040 \<and> bit (0xab120040 :: uint32_t) 6 \<and>
   \<not> bit (0xab120040 :: uint32_t) 0 \<and> \<not> bit (0xab120040 :: uint32_t) 7"
proof -
  have b: "isChannelBusy 0xab120040" by (simp add: isChannelBusy_def)
  then have "bit (0xab120040 :: uint32_t) 6"
    and r: "\<forall>i<8. i \<noteq> 6 \<longrightarrow> \<not> bit (0xab120040 :: uint32_t) i"
    using isChannelBusy_low_byte[of "0xab120040"] by blast+
  moreover from r have "\<not> bit (0xab120040 :: uint32_t) 0" by (rule allE[of _ 0]) simp
  moreover from r have "\<not> bit (0xab120040 :: uint32_t) 7" by (rule allE[of _ 7]) simp
  ultimately show ?thesis using b by blast
qed

subsection \<open>The order of the register accesses\<close>

lemma andThen_InrE:
  assumes "andThen m f s = (Inr y, s'')"
  obtains x s' where "m s = (Inr x, s')" and "f x s' = (Inr y, s'')"
  using assms by (auto simp add: andThen_def split: prod.splits sum.splits)

lemma waitOnBusyClear_trace:
  assumes "waitOnBusyClear (Sca_new (logged bar) ct) st = (Inr u, st')"
  shows "\<exists>p. fst st' = fst st @ p \<and> waitNotBusy p"
proof -
  obtain tr s where st: "st = (tr, s)" by (cases st)
  have "(0::int) \<le> 0" and "0 \<le> MAX_BUSY_ITERATIONS"
    by (simp_all add: MAX_BUSY_ITERATIONS_def)
  from waitOnBusyClear_loop_logged[OF this, of bar ct tr s] assms
  obtain vs where tr': "fst st' = tr @ map (RegRead BUSY) vs"
    and vs: "vs \<noteq> []" "length vs \<le> 10000" "last vs = 0" "0 \<notin> set (butlast vs)"
    by (auto simp add: waitOnBusyClear_def st MAX_BUSY_ITERATIONS_def)
  have "list_all isBusyPoll (butlast (map (RegRead BUSY) vs))"
    using vs(4) by (auto simp add: map_butlast[symmetric] list_all_iff isBusyPoll_def)
  then have "waitNotBusy (map (RegRead BUSY) vs)"
    using vs by (simp add: waitNotBusy_def last_map)
  then show ?thesis using tr' st by auto
qed

lemma barWrite_trace:
  "barWrite (Sca_new (logged bar) ct) index v st = (r, st') \<Longrightarrow>
     fst st' = fst st @ [RegWrite index v]"
  by (cases st) (auto simp add: barWrite_logged)

lemma Sca_write_trace:
  assumes "Sca_write (Sca_new (logged bar) ct) c d st = (Inr u, st')"
  shows "\<exists>p. fst st' = fst st @ writeAccesses c d @ p \<and> waitNotBusy p"
proof -
  from assms obtain st1 st2 st3 st4 u1 u2 u3 u4 where
    a: "barWrite (Sca_new (logged bar) ct) WRITE_DATA d st = (Inr u1, st1)"
    and b: "barWrite (Sca_new (logged bar) ct) WRITE_COMMAND c st1 = (Inr u2, st2)"
    and c: "barWrite (Sca_new (logged bar) ct) CONTROL 0x4 st2 = (Inr u3, st3)"
    and d: "barWrite (Sca_new (logged bar) ct) CONTROL 0x0 st3 = (Inr u4, st4)"
    and e: "waitOnBusyClear (Sca_new (logged bar) ct) st4 = (Inr u, st')"
    unfolding Sca_write_def executeCommand_def by (elim andThen_InrE) blast
  from waitOnBusyClear_trace[OF e] obtain p where "fst st' = fst st4 @ p" "waitNotBusy p" by blast
  then show ?thesis
    using barWrite_trace[OF a] barWrite_trace[OF b] barWrite_trace[OF c] barWrite_trace[OF d]
    by (auto simp add: writeAccesses_def)
qed

lemma Sca_read_trace:
  assumes "Sca_read (Sca_new (logged bar) ct) st = (Inr r, st')"
  shows "fst st' = fst st @ readAccesses r"
proof -
  obtain tr s where st: "st = (tr, s)" by (cases st)
  obtain d s1 where a: "readRegister bar READ_DATA s = (d, s1)" by (cases "readRegister bar READ_DATA s")
  obtain c s2 where b: "readRegister bar READ_COMMAND s1 = (c, s2)" by (cases "readRegister bar READ_COMMAND s1")
  from Sca_read_logged[OF a b, of ct tr] assms show ?thesis
    by (auto simp add: st readAccesses_def split: sum.splits)
qed

lemma init_trace:
  assumes "init (Sca_new (logged bar) ct) st = (Inr u, st')"
  shows "\<exists>p1 p2 p3. fst st' = fst st @ [RegWrite CONTROL 0x1] @ p1 @ [RegWrite CONTROL 0x2] @ p2 @
           [RegWrite CONTROL 0x1] @ p3 @ [RegWrite CONTROL 0x0] \<and>
         waitNotBusy p1 \<and> waitNotBusy p2 \<and> waitNotBusy p3"
proof -
  let ?sca = "Sca_new (logged bar) ct"
  from assms obtain st1 st2 st3 st4 st5 st6 u1 u2 u3 u4 u5 u6 where
    a: "barWrite ?sca CONTROL 0x1 st = (Inr u1, st1)"
    and b: "waitOnBusyClear ?sca st1 = (Inr u2, st2)"
    and c: "barWrite ?sca CONTROL 0x2 st2 = (Inr u3, st3)"
    and d: "waitOnBusyClear ?sca st3 = (Inr u4, st4)"
    and e: "barWrite ?sca CONTROL 0x1 st4 = (Inr u5, st5)"
    and f: "waitOnBusyClear ?sca st5 = (Inr u6, st6)"
    and g: "barWrite ?sca CONTROL 0x0 st6 = (Inr u, st')"
    unfolding init_def by (elim andThen_InrE) blast
  from waitOnBusyClear_trace[OF b] obtain p1 where p1: "fst st2 = fst st1 @ p1" "waitNotBusy p1" by blast
  from waitOnBusyClear_trace[OF d] obtain p2 where p2: "fst st4 = fst st3 @ p2" "waitNotBusy p2" by blast
  from waitOnBusyClear_trace[OF f] obtain p3 where p3: "fst st6 = fst st5 @ p3" "waitNotBusy p3" by blast
  have "fst st' = fst st @ [RegWrite CONTROL 0x1] @ p1 @ [RegWrite CONTROL 0x2] @ p2 @
           [RegWrite CONTROL 0x1] @ p3 @ [RegWrite CONTROL 0x0]"
    using barWrite_trace[OF a] barWrite_trace[OF c] barWrite_trace[OF e] barWrite_trace[OF g] p1(1) p2(1) p3(1)
    by simp
  then show ?thesis using p1(2) p2(2) p3(2) by blast
qed

lemma gpioEnable_trace:
  assumes "gpioEnable (Sca_new (logged bar) ct) st = (Inr u, st')"
  shows "\<exists>p1 p2 p3 p4 r1 r2 r3. fst st' = fst st @
           writeAccesses 0x00010002 0xff000000 @ p1 @ readAccesses r1 @
           writeAccesses 0x00020003 0xff000000 @ p2 @ readAccesses r2 @
           writeAccesses 0x02030020 0xffffffff @ p3 @
           writeAccesses 0x02040021 0x0 @ p4 @ readAccesses r3 \<and>
         waitNotBusy p1 \<and> waitNotBusy p2 \<and> waitNotBusy p3 \<and> waitNotBusy p4"
proof -
  let ?sca = "Sca_new (logged bar) ct"
  from assms obtain st1 st2 st3 st4 st5 st6 st7 u1 r1 u3 r2 u5 u6 r3 where
    a: "Sca_write ?sca 0x00010002 0xff000000 st = (Inr u1, st1)"
    and b: "Sca_read ?sca st1 = (Inr r1, st2)"
    and c: "Sca_write ?sca 0x00020003 0xff000000 st2 = (Inr u3, st3)"
    and d: "Sca_read ?sca st3 = (Inr r2, st4)"
    and e: "Sca_write ?sca 0x02030020 0xffffffff st4 = (Inr u5, st5)"
    and f: "Sca_write ?sca 0x02040021 0x0 st5 = (Inr u6, st6)"
    and g: "Sca_read ?sca st6 = (Inr r3, st7)"
    and h: "returnValue () st7 = (Inr u, st')"
    unfolding gpioEnable_def by (elim andThen_InrE) blast
  from Sca_write_trace[OF a] obtain p1 where p1: "fst st1 = fst st @ writeAccesses 0x00010002 0xff000000 @ p1" "waitNotBusy p1" by blast
  from Sca_write_trace[OF c] obtain p2 where p2: "fst st3 = fst st2 @ writeAccesses 0x00020003 0xff000000 @ p2" "waitNotBusy p2" by blast
  from Sca_write_trace[OF e] obtain p3 where p3: "fst st5 = fst st4 @ writeAccesses 0x02030020 0xffffffff @ p3" "waitNotBusy p3" by blast
  from Sca_write_trace[OF f] obtain p4 where p4: "fst st6 = fst st5 @ writeAccesses 0x02040021 0x0 @ p4" "waitNotBusy p4" by blast
  from h have "st' = st7" by (simp add: returnValue_def)
  then have "fst st' = fst st @
           writeAccesses 0x00010002 0xff000000 @ p1 @ readAccesses r1 @
           writeAccesses 0x00020003 0xff000000 @ p2 @ readAccesses r2 @
           writeAccesses 0x02030020 0xffffffff @ p3 @
           writeAccesses 0x02040021 0x0 @ p4 @ readAccesses r3"
    using p1(1) p2(1) p3(1) p4(1) Sca_read_trace[OF b] Sca_read_trace[OF d] Sca_read_trace[OF g]
    by simp
  then show ?thesis using p1(2) p2(2) p3(2) p4(2) by blast
qed

lemma waitOnBusyClear_idle:
  "waitOnBusyClear (Sca_new (logged idleBar) ct) (tr, ()) = (Inr (), (tr @ [RegRead BUSY 0], ()))"
  unfolding waitOnBusyClear_def
  by (subst waitOnBusyClear_loop.simps)
     (simp add: MAX_BUSY_ITERATIONS_def barRead_logged idleBar_def fixedBar_def)

lemma Sca_write_idle:
  "Sca_write (Sca_new (logged idleBar) ct) c d (tr, ()) =
     (Inr (), (tr @ writeAccesses c d @ [RegRead BUSY 0], ()))"
  by (simp add: Sca_write_def executeCommand_def andThen_def barWrite_logged waitOnBusyClear_idle
      writeAccesses_def idleBar_def[symmetric])

lemma checkError_0: "checkError 0 = Inr ()"
  by (simp add: checkError_closed)

lemma Sca_read_idle:
  "Sca_read (Sca_new (logged idleBar) ct) (tr, ()) =
     (Inr \<lparr>command = 0, data = 0\<rparr>, (tr @ [RegRead READ_DATA 0, RegRead READ_COMMAND 0], ()))"
proof -
  have a: "readRegister idleBar READ_DATA () = (0, ())"
    and b: "readRegister idleBar READ_COMMAND () = (0, ())"
    by (simp_all add: idleBar_def fixedBar_def)
  show ?thesis using Sca_read_logged[OF a b, of ct tr] by (simp add: checkError_0)
qed

lemma init_idle:
  "init (Sca_new (logged idleBar) ct) (tr, ()) =
     (Inr (), (tr @ [RegWrite CONTROL 0x1, RegRead BUSY 0, RegWrite CONTROL 0x2, RegRead BUSY 0,
                     RegWrite CONTROL 0x1, RegRead BUSY 0, RegWrite CONTROL 0x0], ()))"
  by (simp add: init_def andThen_def barWrite_logged waitOnBusyClear_idle)

lemma gpioEnable_idle:
  "gpioEnable (Sca_new (logged idleBar) ct) (tr, ()) =
     (Inr (), (tr @
        writeAccesses 0x00010002 0xff000000 @ [RegRead BUSY 0] @ [RegRead READ_DATA 0, RegRead READ_COMMAND 0] @
        writeAccesses 0x00020003 0xff000000 @ [RegRead BUSY 0] @ [RegRead READ_DATA 0, RegRead READ_COMMAND 0] @
        writeAccesses 0x02030020 0xffffffff @ [RegRead BUSY 0] @
        writeAccesses 0x02040021 0x0 @ [RegRead BUSY 0] @ [RegRead READ_DATA 0, RegRead READ_COMMAND 0], ()))"
  by (simp add: gpioEnable_def andThen_def Sca_write_idle Sca_read_idle returnValue_def)

lemma initialize_idle:
  "initialize (Sca_new (logged idleBar) ct) ([], ()) = (Inr (), (idleInitializeTrace, ()))"
  by (simp add: initialize_def andThen_def init_idle gpioEnable_idle idleInitializeTrace_def)

lemmas register_defs = WRITE_DATA_def WRITE_COMMAND_def CONTROL_def BUSY_def READ_DATA_def READ_COMMAND_def

text \<open>
  Claim C8 says that the GPIO-enable sequence is four write/read pairs. On the device that
  is never busy, the sequence writes four commands and reads three responses: the third
  command (WR GPIO DIR) is not followed by a read.
\<close>

theorem gpioEnable_pairs_counterexample:
  "commandWrites (fst (snd (gpioEnable (Sca_new (logged idleBar) Cru) ([], ())))) = 4 \<and>
   commandReads (fst (snd (gpioEnable (Sca_new (logged idleBar) Cru) ([], ())))) = 3"
  by (simp add: gpioEnable_idle commandWrites_def commandReads_def writeAccesses_def register_defs)

text \<open>
  Claim C8, amended. A run of \<open>initialize\<close> that completes makes these register accesses,
  in this order: CONTROL written with 1, a completed wait-not-busy, CONTROL written with 2,
  a completed wait-not-busy, CONTROL written with 1, a completed wait-not-busy, CONTROL
  written with 0; then the four fixed GPIO-enable commands, each a \<open>write\<close> with its own
  wait-not-busy, the first, the second and the fourth followed by a \<open>read\<close>, the third not.
\<close>

theorem initialize_sequence:
  assumes "initialize (Sca_new (logged bar) ct) ([], s) = (Inr u, (tr, s'))"
  shows "\<exists>p1 p2 p3 p4 p5 p6 p7 r1 r2 r3.
      tr = [RegWrite CONTROL 0x1] @ p1 @ [RegWrite CONTROL 0x2] @ p2 @
           [RegWrite CONTROL 0x1] @ p3 @ [RegWrite CONTROL 0x0] @
           writeAccesses 0x00010002 0xff000000 @ p4 @ readAccesses r1 @
           writeAccesses 0x00020003 0xff000000 @ p5 @ readAccesses r2 @
           writeAccesses 0x02030020 0xffffffff @ p6 @
           writeAccesses 0x02040021 0x0 @ p7 @ readAccesses r3 \<and>
      list_all waitNotBusy [p1, p2, p3, p4, p5, p6, p7]"
proof -
  from assms obtain u1 st1 where
    a: "init (Sca_new (logged bar) ct) ([], s) = (Inr u1, st1)"
    and b: "gpioEnable (Sca_new (logged bar) ct) st1 = (Inr u, (tr, s'))"
    unfolding initialize_def by (elim andThen_InrE)
  from init_trace[OF a] obtain p1 p2 p3 where
    i: "fst st1 = [RegWrite CONTROL 0x1] @ p1 @ [RegWrite CONTROL 0x2] @ p2 @
           [RegWrite CONTROL 0x1] @ p3 @ [RegWrite CONTROL 0x0]"
    and w1: "waitNotBusy p1" "waitNotBusy p2" "waitNotBusy p3"
    by auto
  from gpioEnable_trace[OF b] obtain p4 p5 p6 p7 r1 r2 r3 where
    g: "tr = fst st1 @
           writeAccesses 0x00010002 0xff000000 @ p4 @ readAccesses r1 @
           writeAccesses 0x00020003 0xff000000 @ p5 @ readAccesses r2 @
           writeAccesses 0x02030020 0xffffffff @ p6 @
           writeAccesses 0x02040021 0x0 @ p7 @ readAccesses r3"
    and w2: "waitNotBusy p4" "waitNotBusy p5" "waitNotBusy p6" "waitNotBusy p7"
    by auto
  have "tr = [RegWrite CONTROL 0x1] @ p1 @ [RegWrite CONTROL 0x2] @ p2 @
           [RegWrite CONTROL 0x1] @ p3 @ [RegWrite CONTROL 0x0] @
           writeAccesses 0x00010002 0xff000000 @ p4 @ readAccesses r1 @
           writeAccesses 0x00020003 0xff000000 @ p5 @ readAccesses r2 @
           writeAccesses 0x02030020 0xffffffff @ p6 @
           writeAccesses 0x02040021 0x0 @ p7 @ readAccesses r3"
    unfolding g i by simp
  moreover have "list_all waitNotBusy [p1, p2, p3, p4, p5, p6, p7]"
    using w1 w2 by simp
  ultimately show ?thesis by blast
qed

text \<open>The run on the device that is never busy.\<close>

theorem initialize_sequence_witness:
  "initialize (Sca_new (logged idleBar) Cru) ([], ()) = (Inr (), (idleInitializeTrace, ())) \<and>
   (\<exists>p1 p2 p3 p4 p5 p6 p7 r1 r2 r3.
      idleInitializeTrace = [RegWrite CONTROL 0x1] @ p1 @ [RegWrite CONTROL 0x2] @ p2 @
           [RegWrite CONTROL 0x1] @ p3 @ [RegWrite CONTROL 0x0] @
           writeAccesses 0x00010002 0xff000000 @ p4 @ readAccesses r1 @
           writeAccesses 0x00020003 0xff000000 @ p5 @ readAccesses r2 @
           writeAccesses 0x02030020 0xffffffff @ p6 @
           writeAccesses 0x02040021 0x0 @ p7 @ readAccesses r3 \<and>
      list_all waitNotBusy [p1, p2, p3, p4, p5, p6, p7])"
  using initialize_sequence[OF initialize_idle[of Cru]] initialize_idle[of Cru] by blast

lemma gpioWrite_idle:
  "gpioWrite (Sca_new (logged idleBar) ct) v ([], ()) =
     (Inr \<lparr>command = 0, data = 0\<rparr>,
      (idleInitializeTrace @
        writeAccesses 0x02040010 v @ [RegRead BUSY 0] @
        writeAccesses 0x02050011 0x0 @ [RegRead BUSY 0] @ [RegRead READ_DATA 0, RegRead READ_COMMAND 0] @
        writeAccesses 0x02060001 0x0 @ [RegRead BUSY 0] @ [RegRead READ_DATA 0, RegRead READ_COMMAND 0], ()))"
  by (simp add: gpioWrite_def andThen_def initialize_idle Sca_write_idle Sca_read_idle)

text \<open>
  Claim C7 says that after the initialization \<open>gpioWrite\<close> issues exactly three write/read
  pairs. On the device that is never busy, what follows the initialization is three command
  writes and two response reads: the first command (WR REGISTER OUT DATA) is not followed by
  a read.
\<close>

theorem gpioWrite_pairs_counterexample:
  "take (length idleInitializeTrace) (fst (snd (gpioWrite (Sca_new (logged idleBar) Cru) 5 ([], ()))))
     = idleInitializeTrace \<and>
   commandWrites (drop (length idleInitializeTrace)
     (fst (snd (gpioWrite (Sca_new (logged idleBar) Cru) 5 ([], ()))))) = 3 \<and>
   commandReads (drop (length idleInitializeTrace)
     (fst (snd (gpioWrite (Sca_new (logged idleBar) Cru) 5 ([], ()))))) = 2"
  by (simp add: gpioWrite_idle commandWrites_def commandReads_def writeAccesses_def register_defs)

text \<open>
  Claim C7, amended. A run of \<open>gpioWrite v\<close> that completes first makes the whole run of
  \<open>initialize\<close>, then writes the three fixed commands, the first with data \<open>v\<close> and the
  others with data 0, each with its own wait-not-busy; the second and the third are followed
  by a \<open>read\<close>, the first is not. The value returned is the pair read by the final \<open>read\<close>.
\<close>

theorem gpioWrite_sequence:
  assumes "gpioWrite (Sca_new (logged bar) ct) v ([], s) = (Inr r, (tr, s'))"
  shows "\<exists>tr0 s0 p1 p2 p3 r1.
      initialize (Sca_new (logged bar) ct) ([], s) = (Inr (), (tr0, s0)) \<and>
      tr = tr0 @ writeAccesses 0x02040010 v @ p1 @
           writeAccesses 0x02050011 0x0 @ p2 @ readAccesses r1 @
           writeAccesses 0x02060001 0x0 @ p3 @ readAccesses r \<and>
      list_all waitNotBusy [p1, p2, p3]"
proof -
  let ?sca = "Sca_new (logged bar) ct"
  from assms obtain st0 st1 st2 st3 st4 u0 u1 u2 r1 u4 where
    a: "initialize ?sca ([], s) = (Inr u0, st0)"
    and b: "Sca_write ?sca 0x02040010 v st0 = (Inr u1, st1)"
    and c: "Sca_write ?sca 0x02050011 0x0 st1 = (Inr u2, st2)"
    and d: "Sca_read ?sca st2 = (Inr r1, st3)"
    and e: "Sca_write ?sca 0x02060001 0x0 st3 = (Inr u4, st4)"
    and f: "Sca_read ?sca st4 = (Inr r, (tr, s'))"
    unfolding gpioWrite_def by (elim andThen_InrE) blast
  from Sca_write_trace[OF b] obtain p1 where p1: "fst st1 = fst st0 @ writeAccesses 0x02040010 v @ p1" "waitNotBusy p1" by blast
  from Sca_write_trace[OF c] obtain p2 where p2: "fst st2 = fst st1 @ writeAccesses 0x02050011 0x0 @ p2" "waitNotBusy p2" by blast
  from Sca_write_trace[OF e] obtain p3 where p3: "fst st4 = fst st3 @ writeAccesses 0x02060001 0x0 @ p3" "waitNotBusy p3" by blast
  have "tr = fst st0 @ writeAccesses 0x02040010 v @ p1 @
           writeAccesses 0x02050011 0x0 @ p2 @ readAccesses r1 @
           writeAccesses 0x02060001 0x0 @ p3 @ readAccesses r"
    using p1(1) p2(1) p3(1) Sca_read_trace[OF d] Sca_read_trace[OF f] by simp
  moreover have "initialize ?sca ([], s) = (Inr (), (fst st0, snd st0))" using a by simp
  moreover have "list_all waitNotBusy [p1, p2, p3]" using p1(2) p2(2) p3(2) by simp
  ultimately show ?thesis by blast
qed

text \<open>The run on the device that is never busy, with data 5.\<close>

theorem gpioWrite_sequence_witness:
  "gpioWrite (Sca_new (logged idleBar) Cru) 5 ([], ()) =
     (Inr \<lparr>command = 0, data = 0\<rparr>,
      (idleInitializeTrace @
        writeAccesses 0x02040010 5 @ [RegRead BUSY 0] @
        writeAccesses 0x02050011 0x0 @ [RegRead BUSY 0] @ [RegRead READ_DATA 0, RegRead READ_COMMAND 0] @
        writeAccesses 0x02060001 0x0 @ [RegRead BUSY 0] @ [RegRead READ_DATA 0, RegRead READ_COMMAND 0], ())) \<and>
   (\<exists>tr0 s0 p1 p2 p3 r1.
      initialize (Sca_new (logged idleBar) Cru) ([], ()) = (Inr (), (tr0, s0)) \<and>
      idleInitializeTrace @
        writeAccesses 0x02040010 5 @ [RegRead BUSY 0] @
        writeAccesses 0x02050011 0x0 @ [RegRead BUSY 0] @ [RegRead READ_DATA 0, RegRead READ_COMMAND 0] @
        writeAccesses 0x02060001 0x0 @ [RegRead BUSY 0] @ [RegRead READ_DATA 0, RegRead READ_COMMAND 0]
      = tr0 @ writeAccesses 0x02040010 5 @ p1 @
           writeAccesses 0x02050011 0x0 @ p2 @ readAccesses r1 @
           writeAccesses 0x02060001 0x0 @ p3 @ readAccesses \<lparr>command = 0, data = 0\<rparr> \<and>
      list_all waitNotBusy [p1, p2, p3])"
  using gpioWrite_sequence[OF gpioWrite_idle[of Cru 5]] gpioWrite_idle[of Cru 5] by blast

section \<open>Properties of the enumeration\<close>

subsection \<open>Listing all cards\<close>








subsection \<open>Resolving one card\<close>











section \<open>Properties of the generator register setters\<close>

lemma setOwnedBits_frame: "decode_other_bits owned (setOwnedBits owned v R) = decode_other_bits owned R"
  unfolding decode_other_bits_def setOwnedBits_def
  by (rule bit_eqI) (auto simp add: bit_and_iff bit_or_iff bit_not_iff)

lemma setOwnedBits_field: "setOwnedBits owned v R AND owned = v AND owned"
  unfolding setOwnedBits_def
  by (rule bit_eqI) (auto simp add: bit_and_iff bit_or_iff bit_not_iff)

text \<open>
  Claim C9. For every register value \<open>R\<close> and each of the four setters, whatever bits the
  setter owns and whatever value it is given: the bits the setter does not own are the same
  before and after, \<open>decode_other_bits (S R) = decode_other_bits R\<close>.
\<close>

theorem generator_setters_frame:
  "decode_other_bits (patternBits layout) (setDataGeneratorPatternBits layout R pattern) =
     decode_other_bits (patternBits layout) R \<and>
   decode_other_bits (sizeBits layout) (setDataGeneratorSizeBits layout R sizeValue) =
     decode_other_bits (sizeBits layout) R \<and>
   decode_other_bits (enableBits layout) (setDataGeneratorEnableBits layout R enabled) =
     decode_other_bits (enableBits layout) R \<and>
   decode_other_bits (randomSizeBits layout) (setDataGeneratorRandomSizeBits layout R enabled) =
     decode_other_bits (randomSizeBits layout) R"
  by (simp add: setDataGeneratorPatternBits_def setDataGeneratorSizeBits_def
      setDataGeneratorEnableBits_def setDataGeneratorRandomSizeBits_def setOwnedBits_frame)

end
